theory Spec2Isabelle
  imports Main "HOL-Library.Sublist" "HOL-Library.Multiset" "HOL-Library.Char_ord" "HOL-Library.List_Lexorder"
begin

section \<open>Strings and paths\<close>

text \<open>
  Strings are character lists. \<open>Array.prototype.sort()\<close> without a comparator orders
  strings by their code units, which is the lexicographic order on \<open>char list\<close>.
\<close>

text \<open>\<open>s.replace(pat, rep)\<close> with a string pattern: only the first occurrence is replaced.\<close>

fun replace_first :: "string \<Rightarrow> string \<Rightarrow> string \<Rightarrow> string" where
  "replace_first pat rep [] = (if pat = [] then rep else [])"
| "replace_first pat rep (c # cs) =
     (if prefix pat (c # cs) then rep @ drop (length pat) (c # cs)
      else c # replace_first pat rep cs)"

text \<open>\<open>s.replace(/pat/g, rep)\<close> for a literal, non-empty pattern: every occurrence, left to right.\<close>

function replace_all :: "string \<Rightarrow> string \<Rightarrow> string \<Rightarrow> string" where
  "replace_all pat rep [] = []"
| "replace_all pat rep (c # cs) =
     (if pat \<noteq> [] \<and> prefix pat (c # cs)
      then rep @ replace_all pat rep (drop (length pat) (c # cs))
      else c # replace_all pat rep cs)"
  by pat_completeness auto
termination
  by (relation "measure (\<lambda>(pat, rep, s). length s)") (auto simp: Suc_le_eq)

text \<open>\<open>.replace(/\\/g, '/')\<close>: every backslash becomes a slash.\<close>

definition slashes :: "string \<Rightarrow> string" where
  "slashes s = map (\<lambda>c. if c = CHR 0x5C then CHR ''/'' else c) s"

text \<open>
  \<open>path.join\<close> and \<open>path.resolve\<close> on segments that are already normalised (the first one
  absolute for \<open>resolve\<close>): the segments separated by a slash.
\<close>

fun join :: "string list \<Rightarrow> string" where
  "join [] = ''.''"
| "join [s] = s"
| "join (s # t # ss) = s @ ''/'' @ join (t # ss)"

definition basename :: "string \<Rightarrow> string" where
  "basename p = rev (takeWhile (\<lambda>c. c \<noteq> CHR ''/'') (rev p))"

definition dirname :: "string \<Rightarrow> string" where
  "dirname p = rev (drop 1 (dropWhile (\<lambda>c. c \<noteq> CHR ''/'') (rev p)))"

text \<open>
  \<open>path.relative(base, p)\<close> for a path \<open>p\<close> below \<open>base\<close>, which is where every path of the
  script lies (they all come from globbing below the working directory); a path outside
  \<open>base\<close> is left as it is.
\<close>

definition relative :: "string \<Rightarrow> string \<Rightarrow> string" where
  "relative base p =
     (if p = base then []
      else if prefix (base @ ''/'') p then drop (length base + 1) p
      else p)"

text \<open>Decimal rendering of an array index, as a template literal does it.\<close>

definition digit_char :: "nat \<Rightarrow> char" where
  "digit_char d = char_of (48 + d)"

fun show_nat :: "nat \<Rightarrow> string" where
  "show_nat n = (if n < 10 then [digit_char n] else show_nat (n div 10) @ [digit_char (n mod 10)])"

declare show_nat.simps [simp del]

text \<open>\<open>Array.prototype.join(sep)\<close>.\<close>

fun join_with :: "string \<Rightarrow> string list \<Rightarrow> string" where
  "join_with sep [] = []"
| "join_with sep [s] = s"
| "join_with sep (s # t # ss) = s @ sep @ join_with sep (t # ss)"

text \<open>
  \<open>[...new Set(xs)]\<close>: a Set iterates in insertion order, so every value stays at the
  place of its first occurrence.
\<close>

fun uniq :: "'a list \<Rightarrow> 'a list \<Rightarrow> 'a list" where
  "uniq seen [] = []"
| "uniq seen (x # xs) = (if x \<in> set seen then uniq seen xs else x # uniq (seen @ [x]) xs)"

definition set_spread :: "'a list \<Rightarrow> 'a list" where
  "set_spread xs = uniq [] xs"

text \<open>\<open>Array.prototype.findIndex\<close>, the position \<open>Array.prototype.find\<close> returns the element of.\<close>

fun find_index :: "('a \<Rightarrow> bool) \<Rightarrow> 'a list \<Rightarrow> nat option" where
  "find_index P [] = None"
| "find_index P (x # xs) = (if P x then Some 0 else map_option Suc (find_index P xs))"

section \<open>Data model\<close>

record RuleDocs =
  description :: "string option"
  recommended :: "bool option"

record RuleMeta =
  fixable :: "string option"
  docs :: "RuleDocs option"

record RuleInfo =
  name :: string
  ruleId :: string
  originalId :: "string option"
  entry :: string
  docsEntry :: string
  meta :: "RuleMeta option"

record PackageInfo =
  pkg_name :: string
  shortId :: string
  pkgId :: string
  path :: string
  rules :: "RuleInfo list"

text \<open>
  What a rule module exports. A schema is held as its JSON text (what \<open>JSON.stringify\<close>
  gives); \<open>meta.schema\<close> is one schema or an array of schemas; \<open>meta.messages\<close> is held
  as its entries in the order of \<open>Object.keys\<close>.
\<close>

datatype schema_field = Single string | Array "string list"

record ModuleMeta =
  mm_fixable :: "string option"
  mm_docs :: "RuleDocs option"
  mm_messages :: "(string \<times> string) list option"
  mm_schema :: "schema_field option"

datatype rule_export = Export (export_meta: "ModuleMeta option")

datatype rule_module = Module (default_export: "rule_export option")

datatype error =
    ManifestError string
  | ModuleNotFound string
  | ModuleLoadError string
  | TypeError string
  | MkdirError string
  | WriteError string
  | NeverSettled

text \<open>
  The world the script runs in: the working directory, what the two globs return (in the
  order the file system enumerates), the manifests, which files exist, what importing a
  file gives, and which directory creations and file writes fail.
\<close>

record env =
  cwd :: string
  glob_manifests :: "string list"
  glob_rules :: "string \<Rightarrow> string list"
  manifest_name :: "string \<Rightarrow> string option"
  file_exists :: "string \<Rightarrow> bool"
  module_at :: "string \<Rightarrow> rule_module option"
  compile_schema :: "string \<Rightarrow> string \<Rightarrow> string option"
  mkdir_fails :: "string \<Rightarrow> bool"
  write_fails :: "string \<Rightarrow> bool"

text \<open>\<open>await import(url)\<close>: rejects when there is no such file or the module does not load.\<close>

definition import_module :: "env \<Rightarrow> string \<Rightarrow> error + rule_module" where
  "import_module e p =
     (if \<not> file_exists e p then Inl (ModuleNotFound p)
      else case module_at e p of None \<Rightarrow> Inl (ModuleLoadError p) | Some m \<Rightarrow> Inr m)"

section \<open>Promise.all\<close>

text \<open>
  \<open>Promise.all\<close> over tasks whose outcomes are \<open>outcomes\<close>, settling in the order
  \<open>order\<close> (indices into the task list): each fulfilled value is stored at the index of its
  task; the first rejection rejects the whole; the result is delivered once every slot is
  filled.
\<close>

fun settle :: "(error + 'a) list \<Rightarrow> nat list \<Rightarrow> 'a option list \<Rightarrow> error + 'a option list" where
  "settle outcomes [] slots = Inr slots"
| "settle outcomes (i # order) slots =
     (if i < length outcomes
      then (case outcomes ! i of
              Inl e \<Rightarrow> Inl e
            | Inr v \<Rightarrow> settle outcomes order (slots[i := Some v]))
      else settle outcomes order slots)"

definition promise_all :: "nat list \<Rightarrow> (error + 'a) list \<Rightarrow> error + 'a list" where
  "promise_all order outcomes =
     (case settle outcomes order (replicate (length outcomes) None) of
        Inl e \<Rightarrow> Inl e
      | Inr slots \<Rightarrow> (case those slots of None \<Rightarrow> Inl NeverSettled | Some vs \<Rightarrow> Inr vs))"

section \<open>readPackage\<close>

definition resolve_entry :: "env \<Rightarrow> string \<Rightarrow> string \<Rightarrow> string" where
  "resolve_entry e pth ruleDir =
     (let nm = basename ruleDir;
          entry_ts = slashes (join [pth, ruleDir, nm @ ''.ts''])
      in if \<not> file_exists e entry_ts
         then slashes (join [pth, ruleDir, nm @ ''.js''])
         else entry_ts)"

definition original_id :: "string \<Rightarrow> string \<Rightarrow> string" where
  "original_id sid nm =
     (if sid = ''js'' then nm
      else if sid = ''ts'' then ''@typescript-eslint/'' @ nm
      else if sid = ''jsx'' then ''react/'' @ nm
      else [])"

text \<open>\<open>mod.default?.meta\<close>\<close>

definition module_meta :: "rule_module \<Rightarrow> ModuleMeta option" where
  "module_meta m = (case default_export m of None \<Rightarrow> None | Some d \<Rightarrow> export_meta d)"

text \<open>The callback of \<open>rulesDir.map\<close>: one rule directory to its \<open>RuleInfo\<close>.\<close>

definition load_rule :: "env \<Rightarrow> string \<Rightarrow> string \<Rightarrow> string \<Rightarrow> string \<Rightarrow> error + RuleInfo" where
  "load_rule e pth pid sid ruleDir =
     (let nm = basename ruleDir;
          ent = resolve_entry e pth ruleDir
      in case import_module e ent of
           Inl err \<Rightarrow> Inl err
         | Inr m \<Rightarrow>
             (let mt = module_meta m
              in Inr \<lparr> name = nm,
                       ruleId = pid @ ''/'' @ nm,
                       originalId = Some (original_id sid nm),
                       entry = slashes (relative (cwd e) ent),
                       docsEntry = slashes (relative (cwd e) (join [pth, ruleDir, ''README.md''])),
                       meta = Some \<lparr> fixable = (case mt of None \<Rightarrow> None | Some x \<Rightarrow> mm_fixable x),
                                     docs = Some \<lparr>
                                       description =
                                         (case mt of None \<Rightarrow> None
                                          | Some x \<Rightarrow> (case mm_docs x of None \<Rightarrow> None | Some d \<Rightarrow> description d)),
                                       recommended =
                                         (case mt of None \<Rightarrow> None
                                          | Some x \<Rightarrow> (case mm_docs x of None \<Rightarrow> None | Some d \<Rightarrow> recommended d)) \<rparr> \<rparr> \<rparr>))"

text \<open>The identifiers \<open>readPackage\<close> derives from the package directory.\<close>

definition pkgId_of :: "env \<Rightarrow> string \<Rightarrow> string" where
  "pkgId_of e pth =
     (let dir = relative (join [cwd e, ''packages'']) pth
      in ''@stylistic/'' @ replace_first ''eslint-plugin-'' [] dir)"

definition shortId_of :: "env \<Rightarrow> string \<Rightarrow> string" where
  "shortId_of e pth = replace_first ''@stylistic/'' [] (pkgId_of e pth)"

text \<open>
  \<open>readPackage\<close>, with the order in which the concurrent rule loads settle as a parameter.
  The manifest is read and parsed before the rules are globbed; \<open>manifest_name\<close> is
  \<open>None\<close> when that fails. The progress line printed with \<open>console.log\<close> is left out.
\<close>

definition readPackage_sched :: "env \<Rightarrow> nat list \<Rightarrow> string \<Rightarrow> error + PackageInfo" where
  "readPackage_sched e order pth =
     (let pid = pkgId_of e pth;
          sid = shortId_of e pth
      in case manifest_name e (join [pth, ''package.json'']) of
           None \<Rightarrow> Inl (ManifestError (join [pth, ''package.json'']))
         | Some pname \<Rightarrow>
             (let rulesDir = sort (glob_rules e pth)
              in case promise_all order (map (load_rule e pth pid sid) rulesDir) of
                   Inl err \<Rightarrow> Inl err
                 | Inr rs \<Rightarrow>
                     Inr \<lparr> pkg_name = pname, shortId = sid, pkgId = pid,
                           path = relative (cwd e) pth, rules = rs \<rparr>))"

text \<open>The same with the loads settling in the order they were started.\<close>

definition readPackage :: "env \<Rightarrow> string \<Rightarrow> error + PackageInfo" where
  "readPackage e pth = readPackage_sched e [0 ..< length (glob_rules e pth)] pth"

section \<open>generateDTS\<close>

definition header :: string where
  "header = ''/* GENERATED, DO NOT EDIT DIRECTLY */'' @ [CHR 0x0A]"

definition schema_name :: "nat \<Rightarrow> string" where
  "schema_name index = ''Schema'' @ show_nat index"

definition placeholder :: "nat \<Rightarrow> string" where
  "placeholder index = ''export type '' @ schema_name index @ '' = unknown'' @ [CHR 0x0A]"

definition compile_warning :: "string \<Rightarrow> nat \<Rightarrow> string" where
  "compile_warning rule_name index =
     ''Failed to compile schema '' @ schema_name index @ '' for rule '' @ rule_name
       @ ''. Falling back to unknown.''"

text \<open>
  The callback of \<open>schemas.map\<close>: the declaration emitted for one schema entry and the
  warnings printed for it.
\<close>

definition schema_entry :: "env \<Rightarrow> string \<Rightarrow> nat \<Rightarrow> string \<Rightarrow> string \<times> string list" where
  "schema_entry e rule_name index schema =
     (let schema' = replace_all ''#/items/0/$defs/'' ''#/$defs/'' schema
      in case compile_schema e schema' (schema_name index) of
           Some compiled \<Rightarrow> (compiled, [])
         | None \<Rightarrow> (placeholder index, [compile_warning rule_name index]))"

definition schema_list :: "ModuleMeta \<Rightarrow> string list" where
  "schema_list mt =
     (case mm_schema mt of None \<Rightarrow> [] | Some (Array ss) \<Rightarrow> ss | Some (Single s) \<Rightarrow> [s])"

definition compiled_entries :: "env \<Rightarrow> string \<Rightarrow> string list \<Rightarrow> (string \<times> string list) list" where
  "compiled_entries e rule_name schemas =
     map (\<lambda>(index, schema). schema_entry e rule_name index schema) (enumerate 0 schemas)"

definition optionTypes :: "'a list \<Rightarrow> string list" where
  "optionTypes options = map (\<lambda>index. schema_name index @ ''?'') [0 ..< length options]"

definition ruleOptionTypeValue :: "ModuleMeta \<Rightarrow> 'a list \<Rightarrow> string" where
  "ruleOptionTypeValue mt options =
     (case mm_schema mt of
        Some (Array ss) \<Rightarrow> ''['' @ join_with '', '' (optionTypes options) @ '']''
      | Some (Single s) \<Rightarrow> ''Schema0''
      | None \<Rightarrow> ''[]'')"

definition quoted :: "string \<Rightarrow> string" where
  "quoted i = [CHR 0x27] @ i @ [CHR 0x27]"

definition messageIdsType :: "string list \<Rightarrow> string" where
  "messageIdsType messageIds =
     (let u = join_with '' | '' (map quoted messageIds) in if u = [] then ''never'' else u)"

record dts_file =
  dts_path :: string
  dts_lines :: "string list"
  dts_warnings :: "string list"

text \<open>
  The callback of \<open>pkg.rules.map\<close> up to its write: the lines of the rule's
  \<open>types.d.ts\<close>, where it goes, and the warnings printed on the way (listed by schema index;
  the order they are printed in depends on which compilation settles first).
\<close>

definition rule_dts :: "env \<Rightarrow> RuleInfo \<Rightarrow> error + dts_file" where
  "rule_dts e rule =
     (case import_module e (join [cwd e, entry rule]) of
        Inl err \<Rightarrow> Inl err
      | Inr m \<Rightarrow>
          (case default_export m of
             None \<Rightarrow> Inl (TypeError ''Cannot read properties of undefined (reading meta)'')
           | Some d \<Rightarrow>
               (case export_meta d of
                  None \<Rightarrow> Inl (TypeError ''Cannot read properties of undefined (reading messages)'')
                | Some mt \<Rightarrow>
                    (let messageIds = map fst (case mm_messages mt of None \<Rightarrow> [] | Some ms \<Rightarrow> ms);
                         compiled = compiled_entries e (name rule) (schema_list mt);
                         options = map fst compiled
                     in Inr \<lparr> dts_path = join [dirname (join [cwd e, entry rule]), ''types.d.ts''],
                              dts_lines =
                                [header] @ options @
                                [''export type RuleOptions = '' @ ruleOptionTypeValue mt options,
                                 ''export type MessageIds = '' @ messageIdsType messageIds,
                                 []],
                              dts_warnings = concat (map snd compiled) \<rparr>))))"

text \<open>The whole callback: the file content is the lines joined by newlines, then written.\<close>

definition dts_content :: "dts_file \<Rightarrow> string" where
  "dts_content f = join_with [CHR 0x0A] (dts_lines f)"


section \<open>Effects\<close>

text \<open>
  What the awaited part of the script does to the file system, in order, and how it ends.
  \<open>Spawn\<close> records a promise that was started and never awaited: its outcome does not
  reach the code that started it.
\<close>

datatype event = Mkdir string | WriteFile string | Spawn string

type_synonym 'a io = "event list \<times> (error + 'a)"

definition io_return :: "'a \<Rightarrow> 'a io" where
  "io_return x = ([], Inr x)"

definition io_lift :: "error + 'a \<Rightarrow> 'a io" where
  "io_lift r = ([], r)"

definition io_bind :: "'a io \<Rightarrow> ('a \<Rightarrow> 'b io) \<Rightarrow> 'b io" where
  "io_bind m f =
     (case m of
        (evs, Inl err) \<Rightarrow> (evs, Inl err)
      | (evs, Inr x) \<Rightarrow> (case f x of (evs', r) \<Rightarrow> (evs @ evs', r)))"

definition io_then :: "unit io \<Rightarrow> 'b io \<Rightarrow> 'b io" where
  "io_then m k = io_bind m (\<lambda>_. k)"

definition mkdir :: "env \<Rightarrow> string \<Rightarrow> unit io" where
  "mkdir e d = (if mkdir_fails e d then ([], Inl (MkdirError d)) else ([Mkdir d], Inr ()))"

definition writeFile :: "env \<Rightarrow> string \<Rightarrow> unit io" where
  "writeFile e f = (if write_fails e f then ([], Inl (WriteError f)) else ([WriteFile f], Inr ()))"

section \<open>The artifact writers\<close>

text \<open>
  The writers are modelled by what they create and where; the text of the index, the
  table, the interface declarations and the export map is not part of the model.
\<close>

definition writeRulesIndex :: "env \<Rightarrow> PackageInfo \<Rightarrow> unit io" where
  "writeRulesIndex e pkg =
     (if rules pkg = [] then io_return ()
      else let ruleDir = join [path pkg, ''rules'']
           in io_then (mkdir e ruleDir) (writeFile e (join [ruleDir, ''index.ts''])))"

definition writeREADME :: "env \<Rightarrow> PackageInfo \<Rightarrow> unit io" where
  "writeREADME e pkg =
     (if rules pkg = [] then io_return ()
      else writeFile e (join [path pkg, ''rules.md'']))"

text \<open>
  \<open>generateDTS\<close> maps an async callback over the rules and drops the promises: it
  returns once every callback has reached its first \<open>await\<close>.
\<close>

definition generateDTS :: "env \<Rightarrow> PackageInfo \<Rightarrow> unit io" where
  "generateDTS e pkg = (map (\<lambda>rule. Spawn (entry rule)) (rules pkg), Inr ())"


definition writePackageDTS :: "env \<Rightarrow> PackageInfo \<Rightarrow> unit io" where
  "writePackageDTS e pkg =
     (if rules pkg = [] then io_return ()
      else io_then (writeFile e (join [path pkg, ''dts'', ''rule-options.d.ts'']))
                   (writeFile e (join [path pkg, ''dts'', ''define-config-support.d.ts''])))"

definition updateExports :: "env \<Rightarrow> PackageInfo \<Rightarrow> unit io" where
  "updateExports e pkg =
     (if rules pkg = [] then io_return ()
      else case manifest_name e (join [path pkg, ''package.json'']) of
             None \<Rightarrow> ([], Inl (ManifestError (join [path pkg, ''package.json''])))
           | Some _ \<Rightarrow> writeFile e (join [path pkg, ''package.json'']))"

section \<open>The merge\<close>

text \<open>\<open>js.find(..) || ts.find(..) || jsx.find(..)\<close>: a rule object is never falsy.\<close>

definition pick_rule :: "PackageInfo \<Rightarrow> PackageInfo \<Rightarrow> PackageInfo \<Rightarrow> string \<Rightarrow> RuleInfo option" where
  "pick_rule packageJs packageTs packageJsx nm =
     (case find (\<lambda>i. name i = nm) (rules packageJs) of
        Some r \<Rightarrow> Some r
      | None \<Rightarrow>
          (case find (\<lambda>i. name i = nm) (rules packageTs) of
             Some r \<Rightarrow> Some r
           | None \<Rightarrow> find (\<lambda>i. name i = nm) (rules packageJsx)))"

text \<open>
  \<open>{ ...rule, ruleId, originalId: undefined }\<close>. Spreading \<open>undefined\<close> would give an
  object with no other property; the names come from the three packages, so that case
  does not arise (\<open>pick_rule_defined\<close> below) and is written here with empty fields.
\<close>

definition merge_rule :: "PackageInfo \<Rightarrow> PackageInfo \<Rightarrow> PackageInfo \<Rightarrow> string \<Rightarrow> RuleInfo" where
  "merge_rule packageJs packageTs packageJsx nm =
     (case pick_rule packageJs packageTs packageJsx nm of
        Some rule \<Rightarrow> rule\<lparr> ruleId := ''@stylistic/'' @ nm, originalId := None \<rparr>
      | None \<Rightarrow> \<lparr> name = [], ruleId = ''@stylistic/'' @ nm, originalId = None,
                  entry = [], docsEntry = [], meta = None \<rparr>)"

definition merged_names :: "PackageInfo \<Rightarrow> PackageInfo \<Rightarrow> PackageInfo \<Rightarrow> string list" where
  "merged_names packageJs packageTs packageJsx =
     set_spread (map name (rules packageJs) @ map name (rules packageTs) @ map name (rules packageJsx))"

definition merged_rules :: "PackageInfo \<Rightarrow> PackageInfo \<Rightarrow> PackageInfo \<Rightarrow> RuleInfo list" where
  "merged_rules packageJs packageTs packageJsx =
     map (merge_rule packageJs packageTs packageJsx) (merged_names packageJs packageTs packageJsx)"

text \<open>
  Lines 43 to 62 of \<open>run\<close>: the four packages are looked up in the list, and the one named
  \<open>@stylistic/eslint-plugin\<close> is updated in place. Reading \<open>.rules\<close> of a package that was
  not found throws.
\<close>

definition merge_packages :: "PackageInfo list \<Rightarrow> error + PackageInfo list" where
  "merge_packages packages =
     (case find (\<lambda>i. shortId i = ''js'') packages of
        None \<Rightarrow> Inl (TypeError ''Cannot read properties of undefined (reading rules)'')
      | Some packageJs \<Rightarrow>
     (case find (\<lambda>i. shortId i = ''ts'') packages of
        None \<Rightarrow> Inl (TypeError ''Cannot read properties of undefined (reading rules)'')
      | Some packageTs \<Rightarrow>
     (case find (\<lambda>i. shortId i = ''jsx'') packages of
        None \<Rightarrow> Inl (TypeError ''Cannot read properties of undefined (reading rules)'')
      | Some packageJsx \<Rightarrow>
     (case find_index (\<lambda>i. pkg_name i = ''@stylistic/eslint-plugin'') packages of
        None \<Rightarrow> Inl (TypeError ''Cannot set properties of undefined (setting rules)'')
      | Some g \<Rightarrow>
          Inr (packages[g := (packages ! g)\<lparr> shortId := ''default'',
                                            rules := merged_rules packageJs packageTs packageJsx \<rparr>])))))"

section \<open>run\<close>

text \<open>
  The module \<open>metadata.ts\<close> exports the package list (as written by \<open>JSON.stringify\<close>,
  which leaves out the properties that are undefined) and the rules of all its packages,
  each wrapped in \<open>Object.freeze\<close>. The record holds the two exported values.
\<close>

record metadata =
  md_packages :: "PackageInfo list"
  md_rules :: "RuleInfo list"

definition metadata_of :: "PackageInfo list \<Rightarrow> metadata" where
  "metadata_of packages = \<lparr> md_packages = packages, md_rules = concat (map rules packages) \<rparr>"

definition process_package :: "env \<Rightarrow> string \<Rightarrow> PackageInfo io" where
  "process_package e pth =
     io_bind (io_lift (readPackage e pth)) (\<lambda>pkg.
       io_then (writeRulesIndex e pkg)
      (io_then (writeREADME e pkg)
      (io_then (generateDTS e pkg)
      (io_then (writePackageDTS e pkg)
      (io_then (updateExports e pkg)
      (io_return pkg))))))"

fun process_packages :: "env \<Rightarrow> string list \<Rightarrow> PackageInfo list \<Rightarrow> PackageInfo list io" where
  "process_packages e [] packages = io_return packages"
| "process_packages e (p # ps) packages =
     io_bind (process_package e (dirname p)) (\<lambda>pkg. process_packages e ps (packages @ [pkg]))"

definition metadata_path :: "env \<Rightarrow> string" where
  "metadata_path e = join [cwd e, ''packages'', ''metadata'', ''src'', ''metadata.ts'']"

definition run :: "env \<Rightarrow> metadata io" where
  "run e =
     io_bind (process_packages e (sort (glob_manifests e)) []) (\<lambda>packages.
       io_bind (io_lift (merge_packages packages)) (\<lambda>final.
         io_then (writeFile e (metadata_path e)) (io_return (metadata_of final))))"

section \<open>A small repository\<close>

text \<open>
  Five packages below \<open>/w/packages\<close>: the \<open>js\<close> package with the rules \<open>no-var\<close> and
  \<open>quotes\<close>, the \<open>ts\<close> package with \<open>no-any\<close> (a module without a default export) and
  \<open>quotes\<close>, the \<open>jsx\<close> package with \<open>jsx-indent\<close> (a default export without \<open>meta\<close>), and
  the general and the metadata package without rules. The second schema of the \<open>js\<close> rule
  \<open>quotes\<close> refers to a definition that does not exist, and the schema compiler fails on it.
\<close>

definition demo_no_var_meta :: ModuleMeta where
  "demo_no_var_meta =
     \<lparr> mm_fixable = Some ''code'',
       mm_docs = Some \<lparr> description = Some ''no var'', recommended = Some True \<rparr>,
       mm_messages = Some [(''foo'', ''Foo.''), (''bar'', ''Bar.'')],
       mm_schema = None \<rparr>"

definition demo_bad_schema :: string where
  "demo_bad_schema = ''{\"$ref\":\"#/items/0/$defs/x\"}''"

definition demo_quotes_meta :: ModuleMeta where
  "demo_quotes_meta =
     \<lparr> mm_fixable = Some ''code'',
       mm_docs = Some \<lparr> description = Some ''js quotes'', recommended = None \<rparr>,
       mm_messages = Some [(''wrongQuotes'', ''Wrong.'')],
       mm_schema = Some (Array [''{}'', demo_bad_schema, ''{}'']) \<rparr>"

definition demo_ts_quotes_meta :: ModuleMeta where
  "demo_ts_quotes_meta =
     \<lparr> mm_fixable = None,
       mm_docs = Some \<lparr> description = Some ''ts quotes'', recommended = None \<rparr>,
       mm_messages = None,
       mm_schema = Some (Single ''{}'') \<rparr>"

definition demo_modules :: "(string \<times> rule_module) list" where
  "demo_modules =
     [(''/w/packages/eslint-plugin-js/rules/no-var/no-var.js'',
        Module (Some (Export (Some demo_no_var_meta)))),
      (''/w/packages/eslint-plugin-js/rules/quotes/quotes.js'',
        Module (Some (Export (Some demo_quotes_meta)))),
      (''/w/packages/eslint-plugin-jsx/rules/jsx-indent/jsx-indent.js'',
        Module (Some (Export None))),
      (''/w/packages/eslint-plugin-ts/rules/no-any/no-any.ts'',
        Module None),
      (''/w/packages/eslint-plugin-ts/rules/quotes/quotes.ts'',
        Module (Some (Export (Some demo_ts_quotes_meta))))]"

definition demo_env :: env where
  "demo_env =
     \<lparr> cwd = ''/w'',
       glob_manifests =
         [''/w/packages/metadata/package.json'',
          ''/w/packages/eslint-plugin/package.json'',
          ''/w/packages/eslint-plugin-ts/package.json'',
          ''/w/packages/eslint-plugin-jsx/package.json'',
          ''/w/packages/eslint-plugin-js/package.json''],
       glob_rules =
         (\<lambda>p. if p = ''/w/packages/eslint-plugin-js'' then [''rules/quotes'', ''rules/no-var'']
              else if p = ''/w/packages/eslint-plugin-ts'' then [''rules/quotes'', ''rules/no-any'']
              else if p = ''/w/packages/eslint-plugin-jsx'' then [''rules/jsx-indent'']
              else []),
       manifest_name =
         map_of
           [(''/w/packages/metadata/package.json'', ''@eslint-stylistic/metadata''),
            (''/w/packages/eslint-plugin/package.json'', ''@stylistic/eslint-plugin''),
            (''/w/packages/eslint-plugin-ts/package.json'', ''@stylistic/eslint-plugin-ts''),
            (''/w/packages/eslint-plugin-jsx/package.json'', ''@stylistic/eslint-plugin-jsx''),
            (''/w/packages/eslint-plugin-js/package.json'', ''@stylistic/eslint-plugin-js''),
            (''packages/eslint-plugin-ts/package.json'', ''@stylistic/eslint-plugin-ts''),
            (''packages/eslint-plugin-jsx/package.json'', ''@stylistic/eslint-plugin-jsx''),
            (''packages/eslint-plugin-js/package.json'', ''@stylistic/eslint-plugin-js'')],
       file_exists = (\<lambda>p. p \<in> set (map fst demo_modules)),
       module_at = map_of demo_modules,
       compile_schema =
         (\<lambda>schema nm. if schema = ''{\"$ref\":\"#/$defs/x\"}'' then None
                       else Some (''export type '' @ nm @ '' = any'' @ [CHR 0x0A])),
       mkdir_fails = (\<lambda>p. False),
       write_fails = (\<lambda>p. False) \<rparr>"


definition demo_final :: "PackageInfo list" where
  "demo_final = (case snd (run demo_env) of Inl err \<Rightarrow> [] | Inr md \<Rightarrow> md_packages md)"

definition demo_assembled :: "PackageInfo list" where
  "demo_assembled =
     (case snd (process_packages demo_env (sort (glob_manifests demo_env)) []) of
        Inl err \<Rightarrow> [] | Inr packages \<Rightarrow> packages)"



text \<open>The same repository with the entry file of the \<open>ts\<close> rule \<open>quotes\<close> missing.\<close>

definition broken_env :: env where
  "broken_env =
     demo_env\<lparr> file_exists :=
       (\<lambda>p. p \<in> set (map fst demo_modules) \<and> p \<noteq> ''/w/packages/eslint-plugin-ts/rules/quotes/quotes.ts'') \<rparr>"

section \<open>Promise.all: the result does not depend on the order of settlement\<close>

lemma settle_Inr:
  "settle (map Inr vs) order slots = Inr slots' \<Longrightarrow> length slots = length vs \<Longrightarrow>
   length slots' = length vs \<and>
   (\<forall>i < length vs. slots' ! i = (if i \<in> set order then Some (vs ! i) else slots ! i))"
proof (induction order arbitrary: slots)
  case Nil
  then show ?case by simp
next
  case (Cons i order)
  show ?case
  proof (cases "i < length vs")
    case True
    with Cons.prems have s: "settle (map Inr vs) order (slots[i := Some (vs ! i)]) = Inr slots'"
      by simp
    from Cons.IH [OF s] Cons.prems(2) True show ?thesis
      by (auto simp: nth_list_update)
  next
    case False
    with Cons.prems have s: "settle (map Inr vs) order slots = Inr slots'" by simp
    from Cons.IH [OF s] Cons.prems(2) False show ?thesis by auto
  qed
qed

lemma settle_Inr_total: "\<exists>slots'. settle (map Inr vs) order slots = Inr slots'"
  by (induction order arbitrary: slots) auto

lemma those_map_Some: "those (map Some vs) = Some vs"
  by (induction vs) auto

lemma promise_all_fulfilled:
  assumes "{..< length vs} \<subseteq> set order"
  shows "promise_all order (map Inr vs) = Inr vs"
proof -
  obtain slots' where s: "settle (map Inr vs) order (replicate (length vs) None) = Inr slots'"
    using settle_Inr_total by blast
  from settle_Inr [OF s] assms have "length slots' = length vs"
    and "\<forall>i < length vs. slots' ! i = Some (vs ! i)" by auto
  then have "slots' = map Some vs" by (simp add: list_eq_iff_nth_eq)
  with s show ?thesis by (simp add: promise_all_def those_map_Some)
qed

lemma settle_rejected:
  "i \<in> set order \<Longrightarrow> i < length outcomes \<Longrightarrow> outcomes ! i = Inl err \<Longrightarrow>
   \<exists>err'. settle outcomes order slots = Inl err'"
proof (induction order arbitrary: slots)
  case Nil
  then show ?case by simp
next
  case (Cons j order)
  then show ?case by (cases "outcomes ! j") auto
qed

lemma promise_all_rejected:
  "i \<in> set order \<Longrightarrow> i < length outcomes \<Longrightarrow> outcomes ! i = Inl err \<Longrightarrow>
   \<exists>err'. promise_all order outcomes = Inl err'"
  using settle_rejected [of i order outcomes err "replicate (length outcomes) None"]
  by (auto simp: promise_all_def)

lemma all_Inr_map: "\<forall>i < length outcomes. \<exists>v. outcomes ! i = Inr v \<Longrightarrow> \<exists>vs. outcomes = map Inr vs"
proof (induction outcomes)
  case Nil
  then show ?case by simp
next
  case (Cons a outcomes)
  from Cons.prems have "\<exists>v. a = Inr v" by (metis length_Cons nth_Cons_0 zero_less_Suc)
  moreover from Cons.prems have "\<forall>i < length outcomes. \<exists>v. outcomes ! i = Inr v" by fastforce
  ultimately show ?case using Cons.IH by (metis list.simps(9))
qed

lemma promise_all_Inr:
  assumes "promise_all order outcomes = Inr vs" and "{..< length outcomes} \<subseteq> set order"
  shows "outcomes = map Inr vs"
proof -
  have "\<forall>i < length outcomes. \<exists>v. outcomes ! i = Inr v"
  proof (intro allI impI)
    fix i assume i: "i < length outcomes"
    show "\<exists>v. outcomes ! i = Inr v"
    proof (cases "outcomes ! i")
      case (Inl err)
      with promise_all_rejected [of i order outcomes err] i assms show ?thesis by auto
    next
      case (Inr v)
      then show ?thesis by blast
    qed
  qed
  then obtain ws where ws: "outcomes = map Inr ws" using all_Inr_map by blast
  with assms promise_all_fulfilled [of ws order] show ?thesis by simp
qed

section \<open>What readPackage assembles\<close>

lemma map_eq_Inr_elem:
  "map f ds = map Inr rs \<Longrightarrow> r \<in> set rs \<Longrightarrow> \<exists>d \<in> set ds. f d = Inr r"
proof -
  assume eq: "map f ds = map Inr rs" and r: "r \<in> set rs"
  then have "Inr r \<in> set (map f ds)" by simp
  then show ?thesis by auto
qed

lemma readPackage_sched_Inr:
  assumes "readPackage_sched e order pth = Inr pkg"
    and "{..< length (glob_rules e pth)} \<subseteq> set order"
  shows "map (load_rule e pth (pkgId_of e pth) (shortId_of e pth)) (sort (glob_rules e pth))
           = map Inr (rules pkg)"
    and "pkgId pkg = pkgId_of e pth"
    and "shortId pkg = shortId_of e pth"
    and "manifest_name e (join [pth, ''package.json'']) = Some (pkg_name pkg)"
    and "path pkg = relative (cwd e) pth"
proof -
  let ?outs = "map (load_rule e pth (pkgId_of e pth) (shortId_of e pth)) (sort (glob_rules e pth))"
  from assms(1) obtain pname rs where
    m: "manifest_name e (join [pth, ''package.json'']) = Some pname"
    and pa: "promise_all order ?outs = Inr rs"
    and pkg: "pkg = \<lparr> pkg_name = pname, shortId = shortId_of e pth, pkgId = pkgId_of e pth,
                       path = relative (cwd e) pth, rules = rs \<rparr>"
    by (auto simp: readPackage_sched_def Let_def split: option.splits sum.splits)
  from assms(2) have "{..< length ?outs} \<subseteq> set order" by simp
  from promise_all_Inr [OF pa this] pkg m
  show "?outs = map Inr (rules pkg)" "pkgId pkg = pkgId_of e pth" "shortId pkg = shortId_of e pth"
    "manifest_name e (join [pth, ''package.json'']) = Some (pkg_name pkg)"
    "path pkg = relative (cwd e) pth"
    by simp_all
qed

lemma readPackage_sched_fulfilled:
  assumes "map (load_rule e pth (pkgId_of e pth) (shortId_of e pth)) (sort (glob_rules e pth))
             = map Inr rs"
    and "manifest_name e (join [pth, ''package.json'']) = Some pname"
    and "{..< length (glob_rules e pth)} \<subseteq> set order"
  shows "readPackage_sched e order pth =
           Inr \<lparr> pkg_name = pname, shortId = shortId_of e pth, pkgId = pkgId_of e pth,
                 path = relative (cwd e) pth, rules = rs \<rparr>"
proof -
  from assms(1) have "length rs = length (glob_rules e pth)"
    by (metis length_map length_sort)
  with assms(3) have "{..< length rs} \<subseteq> set order" by simp
  from promise_all_fulfilled [OF this] assms(1,2) show ?thesis
    by (simp add: readPackage_sched_def Let_def)
qed

lemma readPackage_Inr:
  assumes "readPackage e pth = Inr pkg"
  shows "map (load_rule e pth (pkgId_of e pth) (shortId_of e pth)) (sort (glob_rules e pth))
           = map Inr (rules pkg)"
    and "pkgId pkg = pkgId_of e pth"
    and "shortId pkg = shortId_of e pth"
proof -
  have c: "{..< length (glob_rules e pth)} \<subseteq> set [0 ..< length (glob_rules e pth)]" by auto
  from assms have s: "readPackage_sched e [0 ..< length (glob_rules e pth)] pth = Inr pkg"
    by (simp add: readPackage_def)
  from readPackage_sched_Inr(1-3) [OF s c]
  show "map (load_rule e pth (pkgId_of e pth) (shortId_of e pth)) (sort (glob_rules e pth))
           = map Inr (rules pkg)" "pkgId pkg = pkgId_of e pth" "shortId pkg = shortId_of e pth"
    by simp_all
qed

lemma load_rule_Inr:
  assumes "load_rule e pth pid sid d = Inr r"
  shows "name r = basename d" and "ruleId r = pid @ ''/'' @ basename d"
    and "\<exists>mt dc. meta r = Some mt \<and> docs mt = Some dc"
  using assms by (auto simp: load_rule_def Let_def split: sum.splits)

lemma readPackage_rule:
  assumes "readPackage e pth = Inr pkg" and "r \<in> set (rules pkg)"
  shows "\<exists>d \<in> set (glob_rules e pth). load_rule e pth (pkgId pkg) (shortId pkg) d = Inr r"
proof -
  from readPackage_Inr [OF assms(1)] map_eq_Inr_elem [OF _ assms(2)]
  show ?thesis by (metis set_sort)
qed


text \<open>
  Claim C10. Whenever the entry module of a rule can be imported, the rule's \<open>RuleInfo\<close> is
  assembled, and its \<open>meta\<close> object and the \<open>docs\<close> object inside it are defined; when the
  module has no default export, or a default export without \<open>meta\<close>, only the leaves
  \<open>fixable\<close>, \<open>description\<close> and \<open>recommended\<close> are undefined. So every rule of an
  assembled package has a defined \<open>meta\<close> with a defined \<open>docs\<close>.
\<close>

theorem RuleInfo_meta_always_defined:
  "(import_module e (resolve_entry e pth d) = Inr m \<longrightarrow>
      (\<exists>r mt dc. load_rule e pth pid sid d = Inr r \<and> meta r = Some mt \<and> docs mt = Some dc \<and>
         ((default_export m = None \<or> default_export m = Some (Export None)) \<longrightarrow>
            fixable mt = None \<and> description dc = None \<and> recommended dc = None)))
   \<and> (readPackage e pth = Inr pkg \<longrightarrow>
        (\<forall>r \<in> set (rules pkg). \<exists>mt dc. meta r = Some mt \<and> docs mt = Some dc))"
proof (intro conjI impI ballI)
  assume "import_module e (resolve_entry e pth d) = Inr m"
  then show "\<exists>r mt dc. load_rule e pth pid sid d = Inr r \<and> meta r = Some mt \<and> docs mt = Some dc \<and>
         ((default_export m = None \<or> default_export m = Some (Export None)) \<longrightarrow>
            fixable mt = None \<and> description dc = None \<and> recommended dc = None)"
    by (auto simp: load_rule_def Let_def module_meta_def)
next
  fix r assume "readPackage e pth = Inr pkg" and "r \<in> set (rules pkg)"
  from readPackage_rule [OF this] load_rule_Inr(3) show "\<exists>mt dc. meta r = Some mt \<and> docs mt = Some dc"
    by blast
qed

theorem RuleInfo_meta_always_defined_witness:
  "import_module demo_env (resolve_entry demo_env ''/w/packages/eslint-plugin-ts'' ''rules/no-any'')
     = Inr (Module None)
   \<and> (\<exists>r mt dc. load_rule demo_env ''/w/packages/eslint-plugin-ts'' ''@stylistic/ts'' ''ts'' ''rules/no-any'' = Inr r
         \<and> meta r = Some mt \<and> docs mt = Some dc
         \<and> fixable mt = None \<and> description dc = None \<and> recommended dc = None)
   \<and> (\<exists>pkg. readPackage demo_env ''/w/packages/eslint-plugin-ts'' = Inr pkg
         \<and> length (rules pkg) = 2
         \<and> (\<forall>r \<in> set (rules pkg). \<exists>mt dc. meta r = Some mt \<and> docs mt = Some dc))"
proof -
  have i: "import_module demo_env (resolve_entry demo_env ''/w/packages/eslint-plugin-ts'' ''rules/no-any'')
     = Inr (Module None)"
    by code_simp
  have "\<not> isl (readPackage demo_env ''/w/packages/eslint-plugin-ts'')"
    and l: "length (rules (projr (readPackage demo_env ''/w/packages/eslint-plugin-ts''))) = 2"
    by code_simp+
  then obtain pkg where p: "readPackage demo_env ''/w/packages/eslint-plugin-ts'' = Inr pkg"
    by (cases "readPackage demo_env ''/w/packages/eslint-plugin-ts''") auto
  from RuleInfo_meta_always_defined
         [of demo_env "''/w/packages/eslint-plugin-ts''" "''rules/no-any''" "Module None"
             "''@stylistic/ts''" "''ts''" pkg] i p l
  show ?thesis by simp
qed

section \<open>Entry resolution\<close>

lemma io_bind_Inl [simp]: "io_bind (evs, Inl err) f = (evs, Inl err)"
  by (simp add: io_bind_def)

lemma io_bind_Inr [simp]: "io_bind (evs, Inr x) f = (evs @ fst (f x), snd (f x))"
  by (simp add: io_bind_def split: prod.splits)

lemma process_package_rejected:
  "readPackage e pth = Inl err \<Longrightarrow> process_package e pth = ([], Inl err)"
  by (simp add: process_package_def io_lift_def)

lemma process_packages_rejected:
  "p \<in> set ps \<Longrightarrow> snd (process_package e (dirname p)) = Inl err \<Longrightarrow>
   \<exists>err'. snd (process_packages e ps acc) = Inl err'"
proof (induction ps arbitrary: acc)
  case Nil
  then show ?case by simp
next
  case (Cons q ps)
  show ?case
  proof (cases "process_package e (dirname q)")
    case (Pair evs r)
    show ?thesis
    proof (cases r)
      case (Inl a)
      with Pair show ?thesis by simp
    next
      case (Inr pkg)
      with Pair Cons.prems have "p \<in> set ps" by auto
      from Cons.IH [OF this Cons.prems(2)] Pair Inr show ?thesis by simp
    qed
  qed
qed

lemma run_rejected:
  "snd (process_packages e (sort (glob_manifests e)) []) = Inl err \<Longrightarrow> snd (run e) = Inl err"
  by (cases "process_packages e (sort (glob_manifests e)) []") (simp add: run_def)

lemma readPackage_missing_entry:
  assumes "d \<in> set (glob_rules e pth)"
    and "import_module e (resolve_entry e pth d) = Inl err"
  shows "\<exists>err'. readPackage e pth = Inl err'"
proof (cases "manifest_name e (join [pth, ''package.json''])")
  case None
  then show ?thesis by (simp add: readPackage_def readPackage_sched_def)
next
  case (Some pname)
  let ?ds = "sort (glob_rules e pth)"
  let ?outs = "map (load_rule e pth (pkgId_of e pth) (shortId_of e pth)) ?ds"
  from assms(1) have "d \<in> set ?ds" by simp
  then obtain i where i: "i < length ?ds" "?ds ! i = d" unfolding in_set_conv_nth by blast
  with assms(2) have "?outs ! i = Inl err" by (simp add: load_rule_def Let_def)
  moreover from i have "i \<in> set [0 ..< length (glob_rules e pth)]" "i < length ?outs" by simp_all
  ultimately obtain err' where "promise_all [0 ..< length (glob_rules e pth)] ?outs = Inl err'"
    using promise_all_rejected by blast
  with Some show ?thesis by (simp add: readPackage_def readPackage_sched_def Let_def)
qed

text \<open>
  Claim C7. The entry of a rule directory is its \<open>.ts\<close> file when that file exists and its
  \<open>.js\<close> file otherwise. When a rule directory of a package has neither, \<open>readPackage\<close>
  is rejected, nothing is written for the package, and a run that discovers the package
  ends in that failure.
\<close>

theorem entry_resolution:
  "(file_exists e (slashes (join [pth, d, basename d @ ''.ts''])) \<longrightarrow>
      resolve_entry e pth d = slashes (join [pth, d, basename d @ ''.ts'']))
   \<and> (\<not> file_exists e (slashes (join [pth, d, basename d @ ''.ts''])) \<longrightarrow>
      resolve_entry e pth d = slashes (join [pth, d, basename d @ ''.js'']))
   \<and> (d \<in> set (glob_rules e pth)
        \<and> \<not> file_exists e (slashes (join [pth, d, basename d @ ''.ts'']))
        \<and> \<not> file_exists e (slashes (join [pth, d, basename d @ ''.js''])) \<longrightarrow>
      (\<exists>err. readPackage e pth = Inl err \<and> process_package e pth = ([], Inl err))
      \<and> (pth \<in> dirname ` set (glob_manifests e) \<longrightarrow> (\<exists>err. snd (run e) = Inl err)))"
proof (intro conjI impI)
  show "file_exists e (slashes (join [pth, d, basename d @ ''.ts''])) \<Longrightarrow>
      resolve_entry e pth d = slashes (join [pth, d, basename d @ ''.ts''])"
    by (simp add: resolve_entry_def Let_def)
  show "\<not> file_exists e (slashes (join [pth, d, basename d @ ''.ts''])) \<Longrightarrow>
      resolve_entry e pth d = slashes (join [pth, d, basename d @ ''.js''])"
    by (simp add: resolve_entry_def Let_def)
next
  assume a: "d \<in> set (glob_rules e pth)
        \<and> \<not> file_exists e (slashes (join [pth, d, basename d @ ''.ts'']))
        \<and> \<not> file_exists e (slashes (join [pth, d, basename d @ ''.js'']))"
  then have "import_module e (resolve_entry e pth d) = Inl (ModuleNotFound (resolve_entry e pth d))"
    by (simp add: resolve_entry_def Let_def import_module_def)
  with a readPackage_missing_entry obtain err where r: "readPackage e pth = Inl err" by blast
  then show "\<exists>err. readPackage e pth = Inl err \<and> process_package e pth = ([], Inl err)"
    using process_package_rejected by blast
  assume "pth \<in> dirname ` set (glob_manifests e)"
  then obtain p where p: "p \<in> set (sort (glob_manifests e))" "pth = dirname p" by auto
  from r p(2) have "snd (process_package e (dirname p)) = Inl err"
    by (simp add: process_package_rejected)
  from process_packages_rejected [OF p(1) this] run_rejected show "\<exists>err. snd (run e) = Inl err"
    by blast
qed

theorem entry_resolution_witness:
  "file_exists demo_env ''/w/packages/eslint-plugin-ts/rules/no-any/no-any.ts''
   \<and> resolve_entry demo_env ''/w/packages/eslint-plugin-ts'' ''rules/no-any''
       = ''/w/packages/eslint-plugin-ts/rules/no-any/no-any.ts''
   \<and> \<not> file_exists demo_env ''/w/packages/eslint-plugin-js/rules/quotes/quotes.ts''
   \<and> resolve_entry demo_env ''/w/packages/eslint-plugin-js'' ''rules/quotes''
       = ''/w/packages/eslint-plugin-js/rules/quotes/quotes.js''
   \<and> ''rules/quotes'' \<in> set (glob_rules broken_env ''/w/packages/eslint-plugin-ts'')
   \<and> \<not> file_exists broken_env ''/w/packages/eslint-plugin-ts/rules/quotes/quotes.ts''
   \<and> \<not> file_exists broken_env ''/w/packages/eslint-plugin-ts/rules/quotes/quotes.js''
   \<and> ''/w/packages/eslint-plugin-ts'' \<in> dirname ` set (glob_manifests broken_env)
   \<and> (\<exists>err. readPackage broken_env ''/w/packages/eslint-plugin-ts'' = Inl err
           \<and> process_package broken_env ''/w/packages/eslint-plugin-ts'' = ([], Inl err))
   \<and> (\<exists>err. snd (run broken_env) = Inl err)"
proof -
  have 1: "file_exists demo_env ''/w/packages/eslint-plugin-ts/rules/no-any/no-any.ts''"
    by code_simp
  have 2: "\<not> file_exists demo_env ''/w/packages/eslint-plugin-js/rules/quotes/quotes.ts''"
    by code_simp
  have 3: "''rules/quotes'' \<in> set (glob_rules broken_env ''/w/packages/eslint-plugin-ts'')"
    by code_simp
  have 4: "\<not> file_exists broken_env ''/w/packages/eslint-plugin-ts/rules/quotes/quotes.ts''"
    by code_simp
  have 5: "\<not> file_exists broken_env ''/w/packages/eslint-plugin-ts/rules/quotes/quotes.js''"
    by code_simp
  have "dirname ''/w/packages/eslint-plugin-ts/package.json'' = ''/w/packages/eslint-plugin-ts''"
    by code_simp
  moreover have "''/w/packages/eslint-plugin-ts/package.json'' \<in> set (glob_manifests broken_env)"
    by code_simp
  ultimately have 6: "''/w/packages/eslint-plugin-ts'' \<in> dirname ` set (glob_manifests broken_env)"
    by force
  have b: "basename ''rules/no-any'' = ''no-any''" "basename ''rules/quotes'' = ''quotes''"
    by code_simp+
  from entry_resolution [of demo_env "''/w/packages/eslint-plugin-ts''" "''rules/no-any''"]
       entry_resolution [of demo_env "''/w/packages/eslint-plugin-js''" "''rules/quotes''"]
       entry_resolution [of broken_env "''/w/packages/eslint-plugin-ts''" "''rules/quotes''"]
       1 2 3 4 5 6 b
  show ?thesis by (simp add: slashes_def)
qed

section \<open>The order of the rules\<close>

lemma basename_below:
  "CHR ''/'' \<notin> set n \<Longrightarrow> basename (pre @ ''/'' @ n) = n"
proof -
  assume n: "CHR ''/'' \<notin> set n"
  have "takeWhile (\<lambda>c. c \<noteq> CHR ''/'') (rev n @ CHR ''/'' # rev pre) = rev n"
    using n by (auto simp: takeWhile_tail)
  then show ?thesis by (simp add: basename_def)
qed

lemma le_common_prefix: "(pre @ a \<le> pre @ b) = (a \<le> (b :: string))"
  by (induction pre) auto

lemma sorted_names:
  assumes "\<forall>d \<in> set ds. \<exists>n. d = ''rules/'' @ n \<and> CHR ''/'' \<notin> set n"
  shows "map basename (sort ds) = sort (map basename ds)"
proof -
  have b: "\<And>d. d \<in> set ds \<Longrightarrow> d = ''rules/'' @ basename d"
  proof -
    fix d assume "d \<in> set ds"
    with assms obtain n where n: "d = ''rules/'' @ n" "CHR ''/'' \<notin> set n" by blast
    with basename_below [of n "''rules''"] show "d = ''rules/'' @ basename d" by simp
  qed
  have "sorted_wrt (\<lambda>x y. basename x \<le> basename y) (sort ds)"
  proof (rule sorted_wrt_mono_rel [of _ "(\<le>)"])
    fix x y assume "x \<in> set (sort ds)" "y \<in> set (sort ds)" "x \<le> y"
    then have "''rules/'' @ basename x \<le> ''rules/'' @ basename y" using b by simp
    then show "basename x \<le> basename y" using le_common_prefix by blast
  next
    show "sorted_wrt (\<le>) (sort ds)" by simp
  qed
  then have "sorted (map basename (sort ds))" by (simp add: sorted_wrt_map)
  moreover have "mset (map basename (sort ds)) = mset (map basename ds)" by simp
  ultimately show ?thesis by (metis properties_for_sort)
qed

lemma names_of_loaded:
  "map (load_rule e pth pid sid) ds = map Inr rs \<Longrightarrow> map name rs = map basename ds"
proof (induction ds arbitrary: rs)
  case Nil
  then show ?case by simp
next
  case (Cons d ds)
  then obtain r rs' where rs: "rs = r # rs'" by (cases rs) auto
  with Cons.prems have "load_rule e pth pid sid d = Inr r"
    and "map (load_rule e pth pid sid) ds = map Inr rs'" by simp_all
  with Cons.IH [of rs'] load_rule_Inr(1) [of e pth pid sid d r] rs show ?case by simp
qed

text \<open>
  Claim C9. The glob \<open>rules/*\<close> returns paths \<open>rules/n\<close> with \<open>n\<close> a directory name.
  Whatever order the concurrent loads settle in, an assembled package lists its rules in
  the lexicographic order of the directory names, and it is the same package for every
  order of settlement.
\<close>

theorem rules_in_sorted_order:
  assumes "readPackage_sched e order pth = Inr pkg"
    and "set order = {..< length (glob_rules e pth)}"
    and "\<forall>d \<in> set (glob_rules e pth). \<exists>n. d = ''rules/'' @ n \<and> CHR ''/'' \<notin> set n"
  shows "map name (rules pkg) = sort (map basename (glob_rules e pth))
         \<and> (\<forall>order'. set order' = {..< length (glob_rules e pth)} \<longrightarrow>
               readPackage_sched e order' pth = Inr pkg)
         \<and> readPackage e pth = Inr pkg"
proof -
  from assms(2) have c: "{..< length (glob_rules e pth)} \<subseteq> set order" by simp
  note r = readPackage_sched_Inr [OF assms(1) c]
  from names_of_loaded [OF r(1)] sorted_names [OF assms(3)]
  have 1: "map name (rules pkg) = sort (map basename (glob_rules e pth))" by simp
  have 2: "readPackage_sched e order' pth = Inr pkg"
    if "{..< length (glob_rules e pth)} \<subseteq> set order'" for order'
    using readPackage_sched_fulfilled [OF r(1) r(4) that] r(2,3,5) by simp
  have "{..< length (glob_rules e pth)} \<subseteq> set [0 ..< length (glob_rules e pth)]" by auto
  from 2 [OF this] have 3: "readPackage e pth = Inr pkg" by (simp add: readPackage_def)
  from 1 2 3 show ?thesis by simp
qed

theorem rules_in_sorted_order_witness:
  "(\<exists>pkg. readPackage_sched demo_env [1, 0] ''/w/packages/eslint-plugin-js'' = Inr pkg
       \<and> map name (rules pkg) = [''no-var'', ''quotes'']
       \<and> readPackage_sched demo_env [0, 1] ''/w/packages/eslint-plugin-js'' = Inr pkg
       \<and> readPackage demo_env ''/w/packages/eslint-plugin-js'' = Inr pkg)
   \<and> glob_rules demo_env ''/w/packages/eslint-plugin-js'' = [''rules/quotes'', ''rules/no-var'']
   \<and> set [1, 0 :: nat] = {..< length (glob_rules demo_env ''/w/packages/eslint-plugin-js'')}"
proof -
  have g: "glob_rules demo_env ''/w/packages/eslint-plugin-js'' = [''rules/quotes'', ''rules/no-var'']"
    by code_simp
  have "\<not> isl (readPackage_sched demo_env [1, 0] ''/w/packages/eslint-plugin-js'')"
    by code_simp
  then obtain pkg where p: "readPackage_sched demo_env [1, 0] ''/w/packages/eslint-plugin-js'' = Inr pkg"
    by (cases "readPackage_sched demo_env [1, 0] ''/w/packages/eslint-plugin-js''") auto
  have o: "set [1, 0 :: nat] = {..< length (glob_rules demo_env ''/w/packages/eslint-plugin-js'')}"
    "set [0, 1 :: nat] = {..< length (glob_rules demo_env ''/w/packages/eslint-plugin-js'')}"
    unfolding g by auto
  have s: "\<forall>d \<in> set (glob_rules demo_env ''/w/packages/eslint-plugin-js'').
             \<exists>n. d = ''rules/'' @ n \<and> CHR ''/'' \<notin> set n"
    unfolding g by simp
  have v: "sort (map basename (glob_rules demo_env ''/w/packages/eslint-plugin-js'')) = [''no-var'', ''quotes'']"
    by code_simp
  from rules_in_sorted_order [OF p o(1) s] o g v p show ?thesis by auto
qed

section \<open>The merged package\<close>

lemma uniq_seen_cong: "set s = set s' \<Longrightarrow> uniq s xs = uniq s' xs"
proof (induction xs arbitrary: s s')
  case Nil
  then show ?case by simp
next
  case (Cons x xs)
  have "set (s @ [x]) = set (s' @ [x])" using Cons.prems by simp
  from Cons.IH [OF this] Cons.IH [OF Cons.prems] Cons.prems show ?case by simp
qed

lemma set_uniq: "set (uniq seen xs) = set xs - set seen"
  by (induction xs arbitrary: seen) auto

lemma distinct_uniq: "distinct (uniq seen xs)"
  by (induction xs arbitrary: seen) (auto simp: set_uniq)

lemma uniq_append: "uniq seen (xs @ ys) = uniq seen xs @ uniq (seen @ xs) ys"
proof (induction xs arbitrary: seen)
  case Nil
  then show ?case by simp
next
  case (Cons x xs)
  show ?case
  proof (cases "x \<in> set seen")
    case True
    have a: "uniq seen ((x # xs) @ ys) = uniq seen (xs @ ys)" using True by simp
    have b: "uniq (seen @ x # xs) ys = uniq (seen @ xs) ys"
      by (rule uniq_seen_cong) (use True in auto)
    have c: "uniq seen (x # xs) = uniq seen xs" using True by simp
    show ?thesis by (simp only: a b c Cons.IH [of seen])
  next
    case False
    have "uniq seen ((x # xs) @ ys) = x # uniq (seen @ [x]) (xs @ ys)" using False by simp
    also have "\<dots> = x # (uniq (seen @ [x]) xs @ uniq ((seen @ [x]) @ xs) ys)"
      by (simp only: Cons.IH [of "seen @ [x]"])
    also have "\<dots> = uniq seen (x # xs) @ uniq (seen @ x # xs) ys" using False by simp
    finally show ?thesis .
  qed
qed

lemma uniq_distinct: "distinct xs \<Longrightarrow> uniq seen xs = filter (\<lambda>x. x \<notin> set seen) xs"
proof (induction xs arbitrary: seen)
  case Nil
  then show ?case by simp
next
  case (Cons x xs)
  then have "filter (\<lambda>y. y \<notin> set (seen @ [x])) xs = filter (\<lambda>y. y \<notin> set seen) xs"
    by (auto intro: filter_cong)
  with Cons show ?case by simp
qed

lemma uniq_first_occurrence:
  "uniq seen xs = rev (remdups (rev (filter (\<lambda>x. x \<notin> set seen) xs)))"
proof (induction xs arbitrary: seen)
  case Nil
  then show ?case by simp
next
  case (Cons x xs)
  show ?case
  proof (cases "x \<in> set seen")
    case True
    with Cons.IH show ?thesis by simp
  next
    case False
    have f: "filter (\<lambda>y. y \<notin> set (seen @ [x])) xs
               = filter (\<lambda>y. y \<noteq> x) (filter (\<lambda>y. y \<notin> set seen) xs)"
      by (auto intro: filter_cong)
    have r: "remdups (zs @ [x]) = filter (\<lambda>y. y \<noteq> x) (remdups zs) @ [x]" for zs :: "'a list"
      by (induction zs) auto
    have "rev (remdups (rev (filter (\<lambda>y. y \<notin> set seen) (x # xs))))
            = x # rev (filter (\<lambda>y. y \<noteq> x) (remdups (rev (filter (\<lambda>y. y \<notin> set seen) xs))))"
      using False by (simp add: r)
    also have "\<dots> = x # rev (remdups (rev (filter (\<lambda>y. y \<notin> set (seen @ [x])) xs)))"
      by (simp add: f remdups_filter rev_filter conj_commute)
    finally show ?thesis using False Cons.IH [of "seen @ [x]"] by simp
  qed
qed

lemma find_index_Some:
  "find_index P xs = Some g \<Longrightarrow> g < length xs \<and> P (xs ! g) \<and> (\<forall>i < g. \<not> P (xs ! i))"
proof (induction xs arbitrary: g)
  case Nil
  then show ?case by simp
next
  case (Cons x xs)
  show ?case
  proof (cases "P x")
    case True
    with Cons.prems show ?thesis by simp
  next
    case False
    with Cons.prems obtain g' where g': "find_index P xs = Some g'" "g = Suc g'" by auto
    from Cons.IH [OF g'(1)] g'(2) False show ?thesis by (auto simp: less_Suc_eq_0_disj)
  qed
qed

lemma find_index_find: "find_index P xs = Some g \<Longrightarrow> find P xs = Some (xs ! g)"
  by (induction xs arbitrary: g) (auto split: if_splits)


lemma find_name: "find (\<lambda>i. name i = nm) rs = Some r \<Longrightarrow> name r = nm \<and> r \<in> set rs"
  by (induction rs) (auto split: if_splits)

lemma find_name_None: "find (\<lambda>i. name i = nm) rs = None \<longleftrightarrow> nm \<notin> name ` set rs"
  by (induction rs) auto

lemma pick_rule_Some: "pick_rule js ts jsx nm = Some r \<Longrightarrow> name r = nm"
  by (auto simp: pick_rule_def split: option.splits dest: find_name)

lemma set_merged_names:
  "set (merged_names js ts jsx) = name ` set (rules js) \<union> name ` set (rules ts) \<union> name ` set (rules jsx)"
  by (auto simp: merged_names_def set_spread_def set_uniq)

lemma pick_rule_defined:
  "nm \<in> set (merged_names js ts jsx) \<Longrightarrow> \<exists>r. pick_rule js ts jsx nm = Some r"
  by (auto simp: set_merged_names pick_rule_def find_name_None split: option.splits)

lemma name_merge_rule:
  "nm \<in> set (merged_names js ts jsx) \<Longrightarrow> name (merge_rule js ts jsx nm) = nm"
  using pick_rule_defined [of nm js ts jsx] pick_rule_Some [of js ts jsx nm]
  by (auto simp: merge_rule_def)

lemma names_merged_rules: "map name (merged_rules js ts jsx) = merged_names js ts jsx"
proof -
  have "map (\<lambda>nm. name (merge_rule js ts jsx nm)) (merged_names js ts jsx) = merged_names js ts jsx"
    by (rule map_idI) (rule name_merge_rule)
  then show ?thesis by (simp add: merged_rules_def comp_def)
qed

lemma find_map_key:
  "nm \<in> set ns \<Longrightarrow> \<forall>m \<in> set ns. key (f m) = m \<Longrightarrow>
   find (\<lambda>i. key i = nm) (map f ns) = Some (f nm)"
  by (induction ns) auto

lemma find_merged_rules:
  "nm \<in> set (merged_names js ts jsx) \<Longrightarrow>
   find (\<lambda>i. name i = nm) (merged_rules js ts jsx) = Some (merge_rule js ts jsx nm)"
  unfolding merged_rules_def by (rule find_map_key) (simp_all add: name_merge_rule)

lemma merge_packages_Inr:
  assumes "merge_packages packages = Inr final"
  shows "\<exists>js ts jsx g.
           find (\<lambda>i. shortId i = ''js'') packages = Some js
         \<and> find (\<lambda>i. shortId i = ''ts'') packages = Some ts
         \<and> find (\<lambda>i. shortId i = ''jsx'') packages = Some jsx
         \<and> find_index (\<lambda>i. pkg_name i = ''@stylistic/eslint-plugin'') packages = Some g
         \<and> g < length packages
         \<and> final = packages[g := (packages ! g)\<lparr> shortId := ''default'', rules := merged_rules js ts jsx \<rparr>]"
proof -
  obtain js where js: "find (\<lambda>i. shortId i = ''js'') packages = Some js"
    using assms by (cases "find (\<lambda>i. shortId i = ''js'') packages") (simp_all add: merge_packages_def)
  obtain ts where ts: "find (\<lambda>i. shortId i = ''ts'') packages = Some ts"
    using assms js by (cases "find (\<lambda>i. shortId i = ''ts'') packages") (simp_all add: merge_packages_def)
  obtain jsx where jsx: "find (\<lambda>i. shortId i = ''jsx'') packages = Some jsx"
    using assms js ts by (cases "find (\<lambda>i. shortId i = ''jsx'') packages") (simp_all add: merge_packages_def)
  obtain g where g: "find_index (\<lambda>i. pkg_name i = ''@stylistic/eslint-plugin'') packages = Some g"
    using assms js ts jsx
    by (cases "find_index (\<lambda>i. pkg_name i = ''@stylistic/eslint-plugin'') packages")
       (simp_all add: merge_packages_def)
  from assms js ts jsx g
  have "final = packages[g := (packages ! g)\<lparr> shortId := ''default'', rules := merged_rules js ts jsx \<rparr>]"
    by (simp add: merge_packages_def)
  with js ts jsx g find_index_Some [OF g] show ?thesis by blast
qed

lemma merged_package:
  assumes "merge_packages packages = Inr final"
    and "find (\<lambda>i. shortId i = ''js'') packages = Some js"
    and "find (\<lambda>i. shortId i = ''ts'') packages = Some ts"
    and "find (\<lambda>i. shortId i = ''jsx'') packages = Some jsx"
    and "find_index (\<lambda>i. pkg_name i = ''@stylistic/eslint-plugin'') packages = Some g"
  shows "rules (final ! g) = merged_rules js ts jsx" and "g < length final"
proof -
  from merge_packages_Inr [OF assms(1)] assms(2-5)
  have g: "g < length packages"
    and f: "final = packages[g := (packages ! g)\<lparr> shortId := ''default'', rules := merged_rules js ts jsx \<rparr>]"
    by simp_all
  from g f show "rules (final ! g) = merged_rules js ts jsx" "g < length final" by simp_all
qed

text \<open>The small repository, evaluated.\<close>

lemma demo_assembled_value:
  "demo_assembled =
     [\<lparr>pkg_name = ''@stylistic/eslint-plugin-js'', shortId = ''js'',
          pkgId = ''@stylistic/js'', path = ''packages/eslint-plugin-js'',
          rules =
            [\<lparr>name = ''no-var'', ruleId = ''@stylistic/js/no-var'',
                originalId = Some ''no-var'',
                entry = ''packages/eslint-plugin-js/rules/no-var/no-var.js'',
                docsEntry = ''packages/eslint-plugin-js/rules/no-var/README.md'',
                meta =
                  Some
                   \<lparr>fixable = Some ''code'',
                      docs =
                        Some
                         \<lparr>description = Some ''no var'',
                            recommended = Some True\<rparr>\<rparr>\<rparr>,
             \<lparr>name = ''quotes'', ruleId = ''@stylistic/js/quotes'',
                originalId = Some ''quotes'',
                entry = ''packages/eslint-plugin-js/rules/quotes/quotes.js'',
                docsEntry = ''packages/eslint-plugin-js/rules/quotes/README.md'',
                meta =
                  Some
                   \<lparr>fixable = Some ''code'',
                      docs =
                        Some
                         \<lparr>description = Some ''js quotes'',
                            recommended = None\<rparr>\<rparr>\<rparr>]\<rparr>,
       \<lparr>pkg_name = ''@stylistic/eslint-plugin-jsx'', shortId = ''jsx'',
          pkgId = ''@stylistic/jsx'', path = ''packages/eslint-plugin-jsx'',
          rules =
            [\<lparr>name = ''jsx-indent'', ruleId = ''@stylistic/jsx/jsx-indent'',
                originalId = Some ''react/jsx-indent'',
                entry =
                  ''packages/eslint-plugin-jsx/rules/jsx-indent/jsx-indent.js'',
                docsEntry =
                  ''packages/eslint-plugin-jsx/rules/jsx-indent/README.md'',
                meta =
                  Some
                   \<lparr>fixable = None,
                      docs = Some \<lparr>description = None, recommended = None\<rparr>\<rparr>\<rparr>]\<rparr>,
       \<lparr>pkg_name = ''@stylistic/eslint-plugin-ts'', shortId = ''ts'',
          pkgId = ''@stylistic/ts'', path = ''packages/eslint-plugin-ts'',
          rules =
            [\<lparr>name = ''no-any'', ruleId = ''@stylistic/ts/no-any'',
                originalId = Some ''@typescript-eslint/no-any'',
                entry = ''packages/eslint-plugin-ts/rules/no-any/no-any.ts'',
                docsEntry = ''packages/eslint-plugin-ts/rules/no-any/README.md'',
                meta =
                  Some
                   \<lparr>fixable = None,
                      docs = Some \<lparr>description = None, recommended = None\<rparr>\<rparr>\<rparr>,
             \<lparr>name = ''quotes'', ruleId = ''@stylistic/ts/quotes'',
                originalId = Some ''@typescript-eslint/quotes'',
                entry = ''packages/eslint-plugin-ts/rules/quotes/quotes.ts'',
                docsEntry = ''packages/eslint-plugin-ts/rules/quotes/README.md'',
                meta =
                  Some
                   \<lparr>fixable = None,
                      docs =
                        Some
                         \<lparr>description = Some ''ts quotes'',
                            recommended = None\<rparr>\<rparr>\<rparr>]\<rparr>,
       \<lparr>pkg_name = ''@stylistic/eslint-plugin'', shortId = ''eslint-plugin'',
          pkgId = ''@stylistic/eslint-plugin'',
          path = ''packages/eslint-plugin'', rules = []\<rparr>,
       \<lparr>pkg_name = ''@eslint-stylistic/metadata'', shortId = ''metadata'',
          pkgId = ''@stylistic/metadata'', path = ''packages/metadata'',
          rules = []\<rparr>]"
  by code_simp


lemma demo_merge: "merge_packages demo_assembled = Inr demo_final"
  by code_simp

text \<open>
  Claim C4. The rule names of the merged package are the names of the \<open>js\<close>, \<open>ts\<close> and
  \<open>jsx\<close> packages without duplicates, each at the place of its first occurrence in the
  concatenation \<open>js\<close>, \<open>ts\<close>, \<open>jsx\<close>. With the names of each package distinct, these are
  the \<open>js\<close> names in order, then the \<open>ts\<close> names not seen before, then the \<open>jsx\<close> names
  not seen before. The order is not the alphabetical one (see the witness).
\<close>

theorem merged_names_first_encounter:
  assumes "merge_packages packages = Inr final"
    and "find (\<lambda>i. shortId i = ''js'') packages = Some packageJs"
    and "find (\<lambda>i. shortId i = ''ts'') packages = Some packageTs"
    and "find (\<lambda>i. shortId i = ''jsx'') packages = Some packageJsx"
    and "find_index (\<lambda>i. pkg_name i = ''@stylistic/eslint-plugin'') packages = Some g"
  shows "set (map name (rules (final ! g)))
           = set (map name (rules packageJs)) \<union> set (map name (rules packageTs))
             \<union> set (map name (rules packageJsx))
       \<and> distinct (map name (rules (final ! g)))
       \<and> map name (rules (final ! g))
           = rev (remdups (rev (map name (rules packageJs) @ map name (rules packageTs)
                                @ map name (rules packageJsx))))
       \<and> (distinct (map name (rules packageJs)) \<and> distinct (map name (rules packageTs))
            \<and> distinct (map name (rules packageJsx)) \<longrightarrow>
          map name (rules (final ! g))
            = map name (rules packageJs)
              @ filter (\<lambda>n. n \<notin> set (map name (rules packageJs))) (map name (rules packageTs))
              @ filter (\<lambda>n. n \<notin> set (map name (rules packageJs)) \<and> n \<notin> set (map name (rules packageTs)))
                  (map name (rules packageJsx)))"
proof -
  let ?a = "map name (rules packageJs)" and ?b = "map name (rules packageTs)"
    and ?c = "map name (rules packageJsx)"
  from merged_package(1) [OF assms] names_merged_rules
  have n: "map name (rules (final ! g)) = uniq [] (?a @ ?b @ ?c)"
    by (simp add: merged_names_def set_spread_def)
  have 1: "set (uniq [] (?a @ ?b @ ?c)) = set ?a \<union> set ?b \<union> set ?c"
    by (simp add: set_uniq Un_assoc)
  have 2: "distinct (uniq [] (?a @ ?b @ ?c))" by (rule distinct_uniq)
  have 3: "uniq [] (?a @ ?b @ ?c) = rev (remdups (rev (?a @ ?b @ ?c)))"
    using uniq_first_occurrence [of "[]" "?a @ ?b @ ?c"] by simp
  have 4: "uniq [] (?a @ ?b @ ?c)
             = ?a @ filter (\<lambda>n. n \<notin> set ?a) ?b @ filter (\<lambda>n. n \<notin> set ?a \<and> n \<notin> set ?b) ?c"
    if d: "distinct ?a \<and> distinct ?b \<and> distinct ?c"
  proof -
    have "uniq [] (?a @ ?b @ ?c) = uniq [] ?a @ uniq ?a ?b @ uniq (?a @ ?b) ?c"
      using uniq_append [of "[]" ?a "?b @ ?c"] uniq_append [of ?a ?b ?c] by simp
    also have "uniq [] ?a = ?a" using d uniq_distinct [of ?a "[]"] by simp
    also have "uniq ?a ?b = filter (\<lambda>n. n \<notin> set ?a) ?b" using d by (simp add: uniq_distinct)
    also have "uniq (?a @ ?b) ?c = filter (\<lambda>n. n \<notin> set ?a \<and> n \<notin> set ?b) ?c"
      using d uniq_distinct [of ?c "?a @ ?b"] by simp
    finally show ?thesis .
  qed
  from 1 2 3 4 show ?thesis unfolding n by blast
qed

theorem merged_names_first_encounter_witness:
  "merge_packages demo_assembled = Inr demo_final
   \<and> find (\<lambda>i. shortId i = ''js'') demo_assembled = Some (demo_assembled ! 0)
   \<and> find (\<lambda>i. shortId i = ''ts'') demo_assembled = Some (demo_assembled ! 2)
   \<and> find (\<lambda>i. shortId i = ''jsx'') demo_assembled = Some (demo_assembled ! 1)
   \<and> find_index (\<lambda>i. pkg_name i = ''@stylistic/eslint-plugin'') demo_assembled = Some 3
   \<and> map name (rules (demo_assembled ! 0)) = [''no-var'', ''quotes'']
   \<and> map name (rules (demo_assembled ! 2)) = [''no-any'', ''quotes'']
   \<and> map name (rules (demo_assembled ! 1)) = [''jsx-indent'']
   \<and> map name (rules (demo_final ! 3)) = [''no-var'', ''quotes'', ''no-any'', ''jsx-indent'']
   \<and> \<not> sorted (map name (rules (demo_final ! 3)))"
proof -
  note m = demo_merge
  have f: "find (\<lambda>i. shortId i = ''js'') demo_assembled = Some (demo_assembled ! 0)"
    "find (\<lambda>i. shortId i = ''ts'') demo_assembled = Some (demo_assembled ! 2)"
    "find (\<lambda>i. shortId i = ''jsx'') demo_assembled = Some (demo_assembled ! 1)"
    "find_index (\<lambda>i. pkg_name i = ''@stylistic/eslint-plugin'') demo_assembled = Some 3"
    by (simp_all add: demo_assembled_value)
  have n: "map name (rules (demo_assembled ! 0)) = [''no-var'', ''quotes'']"
    "map name (rules (demo_assembled ! 2)) = [''no-any'', ''quotes'']"
    "map name (rules (demo_assembled ! 1)) = [''jsx-indent'']"
    by (simp_all add: demo_assembled_value)
  have s: "\<not> sorted [''no-var'', ''quotes'', ''no-any'', ''jsx-indent'']" by simp
  from merged_names_first_encounter [OF m f] m f n s show ?thesis by simp
qed

text \<open>
  Claim C3. The entry of the merged package for a name is the rule of that name from the
  \<open>js\<close> package when it has one, else from the \<open>ts\<close> package when it has one, else from
  the \<open>jsx\<close> package, with \<open>ruleId\<close> rewritten to \<open>@stylistic/\<close> followed by the name and
  \<open>originalId\<close> undefined; every other field is the source's. This holds in particular
  for a name that several packages have.
\<close>

theorem merged_entry_precedence:
  assumes "merge_packages packages = Inr final"
    and "find (\<lambda>i. shortId i = ''js'') packages = Some packageJs"
    and "find (\<lambda>i. shortId i = ''ts'') packages = Some packageTs"
    and "find (\<lambda>i. shortId i = ''jsx'') packages = Some packageJsx"
    and "find_index (\<lambda>i. pkg_name i = ''@stylistic/eslint-plugin'') packages = Some g"
  shows "(\<forall>r. find (\<lambda>i. name i = nm) (rules packageJs) = Some r \<longrightarrow>
            find (\<lambda>i. name i = nm) (rules (final ! g))
              = Some (r\<lparr> ruleId := ''@stylistic/'' @ nm, originalId := None \<rparr>))
       \<and> (\<forall>r. find (\<lambda>i. name i = nm) (rules packageJs) = None
              \<and> find (\<lambda>i. name i = nm) (rules packageTs) = Some r \<longrightarrow>
            find (\<lambda>i. name i = nm) (rules (final ! g))
              = Some (r\<lparr> ruleId := ''@stylistic/'' @ nm, originalId := None \<rparr>))
       \<and> (\<forall>r. find (\<lambda>i. name i = nm) (rules packageJs) = None
              \<and> find (\<lambda>i. name i = nm) (rules packageTs) = None
              \<and> find (\<lambda>i. name i = nm) (rules packageJsx) = Some r \<longrightarrow>
            find (\<lambda>i. name i = nm) (rules (final ! g))
              = Some (r\<lparr> ruleId := ''@stylistic/'' @ nm, originalId := None \<rparr>))"
proof -
  note m = merged_package(1) [OF assms]
  have k: "find (\<lambda>i. name i = nm) (rules (final ! g))
             = Some (r\<lparr> ruleId := ''@stylistic/'' @ nm, originalId := None \<rparr>)"
    if "pick_rule packageJs packageTs packageJsx nm = Some r" for r
  proof -
    from that have "nm \<in> name ` set (rules packageJs) \<union> name ` set (rules packageTs)
                      \<union> name ` set (rules packageJsx)"
      by (auto simp: pick_rule_def split: option.splits dest: find_name)
    then have "nm \<in> set (merged_names packageJs packageTs packageJsx)"
      by (simp add: set_merged_names)
    from find_merged_rules [OF this] that m show ?thesis by (simp add: merge_rule_def)
  qed
  show ?thesis
  proof (intro conjI allI impI)
    fix r assume "find (\<lambda>i. name i = nm) (rules packageJs) = Some r"
    then have "pick_rule packageJs packageTs packageJsx nm = Some r" by (simp add: pick_rule_def)
    then show "find (\<lambda>i. name i = nm) (rules (final ! g))
             = Some (r\<lparr> ruleId := ''@stylistic/'' @ nm, originalId := None \<rparr>)" by (rule k)
  next
    fix r assume "find (\<lambda>i. name i = nm) (rules packageJs) = None
              \<and> find (\<lambda>i. name i = nm) (rules packageTs) = Some r"
    then have "pick_rule packageJs packageTs packageJsx nm = Some r" by (simp add: pick_rule_def)
    then show "find (\<lambda>i. name i = nm) (rules (final ! g))
             = Some (r\<lparr> ruleId := ''@stylistic/'' @ nm, originalId := None \<rparr>)" by (rule k)
  next
    fix r assume "find (\<lambda>i. name i = nm) (rules packageJs) = None
              \<and> find (\<lambda>i. name i = nm) (rules packageTs) = None
              \<and> find (\<lambda>i. name i = nm) (rules packageJsx) = Some r"
    then have "pick_rule packageJs packageTs packageJsx nm = Some r" by (simp add: pick_rule_def)
    then show "find (\<lambda>i. name i = nm) (rules (final ! g))
             = Some (r\<lparr> ruleId := ''@stylistic/'' @ nm, originalId := None \<rparr>)" by (rule k)
  qed
qed


theorem merged_entry_precedence_witness:
  "merge_packages demo_assembled = Inr demo_final
   \<and> find (\<lambda>i. shortId i = ''js'') demo_assembled = Some (demo_assembled ! 0)
   \<and> find (\<lambda>i. shortId i = ''ts'') demo_assembled = Some (demo_assembled ! 2)
   \<and> find (\<lambda>i. shortId i = ''jsx'') demo_assembled = Some (demo_assembled ! 1)
   \<and> find_index (\<lambda>i. pkg_name i = ''@stylistic/eslint-plugin'') demo_assembled = Some 3
   \<and> find (\<lambda>i. name i = ''quotes'') (rules (demo_assembled ! 0)) = Some (rules (demo_assembled ! 0) ! 1)
   \<and> find (\<lambda>i. name i = ''quotes'') (rules (demo_assembled ! 2)) = Some (rules (demo_assembled ! 2) ! 1)
   \<and> find (\<lambda>i. name i = ''quotes'') (rules (demo_final ! 3))
       = Some ((rules (demo_assembled ! 0) ! 1)\<lparr> ruleId := ''@stylistic/quotes'', originalId := None \<rparr>)
   \<and> find (\<lambda>i. name i = ''no-any'') (rules (demo_assembled ! 0)) = None
   \<and> find (\<lambda>i. name i = ''no-any'') (rules (demo_assembled ! 2)) = Some (rules (demo_assembled ! 2) ! 0)
   \<and> find (\<lambda>i. name i = ''no-any'') (rules (demo_final ! 3))
       = Some ((rules (demo_assembled ! 2) ! 0)\<lparr> ruleId := ''@stylistic/no-any'', originalId := None \<rparr>)
   \<and> find (\<lambda>i. name i = ''jsx-indent'') (rules (demo_assembled ! 0)) = None
   \<and> find (\<lambda>i. name i = ''jsx-indent'') (rules (demo_assembled ! 2)) = None
   \<and> find (\<lambda>i. name i = ''jsx-indent'') (rules (demo_assembled ! 1)) = Some (rules (demo_assembled ! 1) ! 0)
   \<and> find (\<lambda>i. name i = ''jsx-indent'') (rules (demo_final ! 3))
       = Some ((rules (demo_assembled ! 1) ! 0)\<lparr> ruleId := ''@stylistic/jsx-indent'', originalId := None \<rparr>)"
proof -
  note m = demo_merge
  have f: "find (\<lambda>i. shortId i = ''js'') demo_assembled = Some (demo_assembled ! 0)"
    "find (\<lambda>i. shortId i = ''ts'') demo_assembled = Some (demo_assembled ! 2)"
    "find (\<lambda>i. shortId i = ''jsx'') demo_assembled = Some (demo_assembled ! 1)"
    "find_index (\<lambda>i. pkg_name i = ''@stylistic/eslint-plugin'') demo_assembled = Some 3"
    by (simp_all add: demo_assembled_value)
  have q: "find (\<lambda>i. name i = ''quotes'') (rules (demo_assembled ! 0)) = Some (rules (demo_assembled ! 0) ! 1)"
    "find (\<lambda>i. name i = ''quotes'') (rules (demo_assembled ! 2)) = Some (rules (demo_assembled ! 2) ! 1)"
    by (simp_all add: demo_assembled_value)
  have a: "find (\<lambda>i. name i = ''no-any'') (rules (demo_assembled ! 0)) = None
     \<and> find (\<lambda>i. name i = ''no-any'') (rules (demo_assembled ! 2)) = Some (rules (demo_assembled ! 2) ! 0)"
    by (simp add: demo_assembled_value)
  have x: "find (\<lambda>i. name i = ''jsx-indent'') (rules (demo_assembled ! 0)) = None
     \<and> find (\<lambda>i. name i = ''jsx-indent'') (rules (demo_assembled ! 2)) = None
     \<and> find (\<lambda>i. name i = ''jsx-indent'') (rules (demo_assembled ! 1)) = Some (rules (demo_assembled ! 1) ! 0)"
    by (simp add: demo_assembled_value)
  from merged_entry_precedence [OF m f, of "''quotes''"]
       merged_entry_precedence [OF m f, of "''no-any''"]
       merged_entry_precedence [OF m f, of "''jsx-indent''"]
       m f q a x
  show ?thesis by simp
qed

section \<open>The final package list\<close>















section \<open>The declarations of a rule\<close>

lemma length_compiled_entries [simp]: "length (compiled_entries e rn schemas) = length schemas"
  by (simp add: compiled_entries_def)

lemma compiled_entries_nth:
  "j < length schemas \<Longrightarrow> compiled_entries e rn schemas ! j = schema_entry e rn j (schemas ! j)"
  by (simp add: compiled_entries_def nth_enumerate_eq)

lemma rule_dts_meta:
  assumes "import_module e (join [cwd e, entry rule]) = Inr (Module (Some (Export (Some mt))))"
  shows "rule_dts e rule =
           Inr \<lparr> dts_path = join [dirname (join [cwd e, entry rule]), ''types.d.ts''],
                 dts_lines =
                   [header] @ map fst (compiled_entries e (name rule) (schema_list mt)) @
                   [''export type RuleOptions = ''
                      @ ruleOptionTypeValue mt (map fst (compiled_entries e (name rule) (schema_list mt))),
                    ''export type MessageIds = ''
                      @ messageIdsType (map fst (case mm_messages mt of None \<Rightarrow> [] | Some ms \<Rightarrow> ms)),
                    []],
                 dts_warnings = concat (map snd (compiled_entries e (name rule) (schema_list mt))) \<rparr>"
  using assms by (simp add: rule_dts_def Let_def)


lemma dts_line_option:
  assumes "rule_dts e rule = Inr f"
    and "import_module e (join [cwd e, entry rule]) = Inr (Module (Some (Export (Some mt))))"
    and "j < length (schema_list mt)"
  shows "dts_lines f ! Suc j = fst (schema_entry e (name rule) j (schema_list mt ! j))"
proof -
  from rule_dts_meta [OF assms(2)] assms(1)
  have "dts_lines f ! Suc j = (map fst (compiled_entries e (name rule) (schema_list mt)) @
                   [''export type RuleOptions = ''
                      @ ruleOptionTypeValue mt (map fst (compiled_entries e (name rule) (schema_list mt))),
                    ''export type MessageIds = ''
                      @ messageIdsType (map fst (case mm_messages mt of None \<Rightarrow> [] | Some ms \<Rightarrow> ms)),
                    []]) ! j"
    by auto
  also have "\<dots> = map fst (compiled_entries e (name rule) (schema_list mt)) ! j"
    using assms(3) by (simp add: nth_append)
  also have "\<dots> = fst (schema_entry e (name rule) j (schema_list mt ! j))"
    using assms(3) by (simp add: compiled_entries_nth)
  finally show ?thesis .
qed


lemma rule_dts_other_module:
  assumes "join [cwd e, entry rule'] \<noteq> p"
  shows "rule_dts (e\<lparr> module_at := (module_at e)(p := m') \<rparr>) rule' = rule_dts e rule'"
proof -
  let ?e = "e\<lparr> module_at := (module_at e)(p := m') \<rparr>"
  from assms have "import_module ?e (join [cwd e, entry rule']) = import_module e (join [cwd e, entry rule'])"
    by (simp add: import_module_def)
  moreover have "compiled_entries ?e rn ss = compiled_entries e rn ss" for rn ss
    by (simp add: compiled_entries_def schema_entry_def)
  ultimately show ?thesis
    by (simp add: rule_dts_def Let_def split: sum.splits option.splits)
qed


text \<open>
  Claim C5. Let the schema compiler fail on entry \<open>i\<close> of a rule's schemas. Then the
  rule's \<open>types.d.ts\<close> is still produced; its declaration for entry \<open>i\<close> is
  \<open>export type Schema<i> = unknown\<close>; a warning naming \<open>Schema<i>\<close> and the rule is
  printed; every entry that compiles has its compiled declaration; the declaration and
  warnings of an entry \<open>j \<noteq> i\<close> do not depend on what entry \<open>i\<close> is; and the outcome for a
  rule with another entry file does not depend on the module of this rule.
\<close>

theorem compile_failure_isolated:
  assumes "import_module e (join [cwd e, entry rule]) = Inr (Module (Some (Export (Some mt))))"
    and "i < length (schema_list mt)"
    and "compile_schema e (replace_all ''#/items/0/$defs/'' ''#/$defs/'' (schema_list mt ! i))
           (''Schema'' @ show_nat i) = None"
  shows "\<exists>f. rule_dts e rule = Inr f
       \<and> dts_lines f ! Suc i = ''export type Schema'' @ show_nat i @ '' = unknown'' @ [CHR 0x0A]
       \<and> ''Failed to compile schema Schema'' @ show_nat i @ '' for rule '' @ name rule
            @ ''. Falling back to unknown.'' \<in> set (dts_warnings f)
       \<and> (\<forall>j < length (schema_list mt). \<forall>c.
             compile_schema e (replace_all ''#/items/0/$defs/'' ''#/$defs/'' (schema_list mt ! j))
               (''Schema'' @ show_nat j) = Some c \<longrightarrow>
             dts_lines f ! Suc j = c)
       \<and> (\<forall>j < length (schema_list mt). \<forall>s'. j \<noteq> i \<longrightarrow>
             compiled_entries e (name rule) ((schema_list mt)[i := s']) ! j
               = compiled_entries e (name rule) (schema_list mt) ! j)
       \<and> (\<forall>rule' m'. join [cwd e, entry rule'] \<noteq> join [cwd e, entry rule] \<longrightarrow>
             rule_dts (e\<lparr> module_at := (module_at e)(join [cwd e, entry rule] := m') \<rparr>) rule'
               = rule_dts e rule')"
proof -
  let ?ss = "schema_list mt"
  let ?f = "\<lparr> dts_path = join [dirname (join [cwd e, entry rule]), ''types.d.ts''],
                 dts_lines =
                   [header] @ map fst (compiled_entries e (name rule) ?ss) @
                   [''export type RuleOptions = ''
                      @ ruleOptionTypeValue mt (map fst (compiled_entries e (name rule) ?ss)),
                    ''export type MessageIds = ''
                      @ messageIdsType (map fst (case mm_messages mt of None \<Rightarrow> [] | Some ms \<Rightarrow> ms)),
                    []],
                 dts_warnings = concat (map snd (compiled_entries e (name rule) ?ss)) \<rparr>"
  note f = rule_dts_meta [OF assms(1)]
  from assms(3) have en: "schema_entry e (name rule) i (?ss ! i)
             = (''export type Schema'' @ show_nat i @ '' = unknown'' @ [CHR 0x0A],
                [''Failed to compile schema Schema'' @ show_nat i @ '' for rule '' @ name rule
                   @ ''. Falling back to unknown.''])"
    by (simp add: schema_entry_def placeholder_def compile_warning_def schema_name_def)
  from dts_line_option [OF f assms(1,2)] en
  have 1: "dts_lines ?f ! Suc i = ''export type Schema'' @ show_nat i @ '' = unknown'' @ [CHR 0x0A]"
    by simp
  from assms(2) have "compiled_entries e (name rule) ?ss ! i \<in> set (compiled_entries e (name rule) ?ss)"
    by simp
  with compiled_entries_nth [OF assms(2), of e "name rule"] en
  have 2: "''Failed to compile schema Schema'' @ show_nat i @ '' for rule '' @ name rule
            @ ''. Falling back to unknown.'' \<in> set (dts_warnings ?f)"
    by force
  have 3: "dts_lines ?f ! Suc j = c"
    if "j < length ?ss"
      and "compile_schema e (replace_all ''#/items/0/$defs/'' ''#/$defs/'' (?ss ! j))
               (''Schema'' @ show_nat j) = Some c" for j c
    using dts_line_option [OF f assms(1) that(1)] that(2)
    by (simp add: schema_entry_def schema_name_def)
  have 4: "compiled_entries e (name rule) (?ss[i := s']) ! j = compiled_entries e (name rule) ?ss ! j"
    if "j < length ?ss" and "j \<noteq> i" for j s'
    using that by (simp add: compiled_entries_nth)
  have 5: "rule_dts (e\<lparr> module_at := (module_at e)(join [cwd e, entry rule] := m') \<rparr>) rule'
               = rule_dts e rule'"
    if "join [cwd e, entry rule'] \<noteq> join [cwd e, entry rule]" for rule' m'
    using that by (rule rule_dts_other_module)
  from f 1 2 3 4 5 show ?thesis by blast
qed

theorem compile_failure_isolated_witness:
  "import_module demo_env (join [cwd demo_env, entry (rules (demo_assembled ! 0) ! 1)])
     = Inr (Module (Some (Export (Some demo_quotes_meta))))
   \<and> schema_list demo_quotes_meta = [''{}'', demo_bad_schema, ''{}'']
   \<and> compile_schema demo_env
         (replace_all ''#/items/0/$defs/'' ''#/$defs/'' (schema_list demo_quotes_meta ! 1))
         (''Schema'' @ show_nat 1) = None
   \<and> compile_schema demo_env
         (replace_all ''#/items/0/$defs/'' ''#/$defs/'' (schema_list demo_quotes_meta ! 2))
         (''Schema'' @ show_nat 2) = Some (''export type Schema2 = any'' @ [CHR 0x0A])
   \<and> (\<exists>f. rule_dts demo_env (rules (demo_assembled ! 0) ! 1) = Inr f
         \<and> dts_lines f ! 2 = ''export type Schema1 = unknown'' @ [CHR 0x0A]
         \<and> ''Failed to compile schema Schema1 for rule quotes. Falling back to unknown.''
              \<in> set (dts_warnings f)
         \<and> dts_lines f ! 3 = ''export type Schema2 = any'' @ [CHR 0x0A])
   \<and> compiled_entries demo_env ''quotes'' ((schema_list demo_quotes_meta)[1 := ''{}'']) ! 2
       = compiled_entries demo_env ''quotes'' (schema_list demo_quotes_meta) ! 2
   \<and> join [cwd demo_env, entry (rules (demo_assembled ! 0) ! 0)]
       \<noteq> join [cwd demo_env, entry (rules (demo_assembled ! 0) ! 1)]
   \<and> rule_dts (demo_env\<lparr> module_at := (module_at demo_env)
                    (join [cwd demo_env, entry (rules (demo_assembled ! 0) ! 1)] := None) \<rparr>)
         (rules (demo_assembled ! 0) ! 0)
       = rule_dts demo_env (rules (demo_assembled ! 0) ! 0)"
proof -
  let ?R = "rules (demo_assembled ! 0) ! 1" and ?R' = "rules (demo_assembled ! 0) ! 0"
  have 1: "import_module demo_env (join [cwd demo_env, entry ?R])
     = Inr (Module (Some (Export (Some demo_quotes_meta))))"
    by code_simp
  have s: "schema_list demo_quotes_meta = [''{}'', demo_bad_schema, ''{}'']"
    by (simp add: schema_list_def demo_quotes_meta_def)
  have 2: "(1::nat) < length (schema_list demo_quotes_meta)" "(2::nat) < length (schema_list demo_quotes_meta)"
    by (simp_all add: s)
  have 3: "compile_schema demo_env
         (replace_all ''#/items/0/$defs/'' ''#/$defs/'' (schema_list demo_quotes_meta ! 1))
         (''Schema'' @ show_nat 1) = None"
    by code_simp
  have 4: "compile_schema demo_env
         (replace_all ''#/items/0/$defs/'' ''#/$defs/'' (schema_list demo_quotes_meta ! 2))
         (''Schema'' @ show_nat 2) = Some (''export type Schema2 = any'' @ [CHR 0x0A])"
    by code_simp
  have 5: "join [cwd demo_env, entry ?R'] \<noteq> join [cwd demo_env, entry ?R]"
    by (simp add: demo_assembled_value)
  have n: "name ?R = ''quotes''" by (simp add: demo_assembled_value)
  have d: "show_nat 1 = ''1''" by code_simp
  from compile_failure_isolated [OF 1 2(1) 3] obtain f where
    f: "rule_dts demo_env ?R = Inr f"
      "dts_lines f ! Suc 1 = ''export type Schema'' @ show_nat 1 @ '' = unknown'' @ [CHR 0x0A]"
      "''Failed to compile schema Schema'' @ show_nat 1 @ '' for rule '' @ name ?R
            @ ''. Falling back to unknown.'' \<in> set (dts_warnings f)"
      "\<forall>j < length (schema_list demo_quotes_meta). \<forall>c.
             compile_schema demo_env (replace_all ''#/items/0/$defs/'' ''#/$defs/'' (schema_list demo_quotes_meta ! j))
               (''Schema'' @ show_nat j) = Some c \<longrightarrow>
             dts_lines f ! Suc j = c"
      "\<forall>j < length (schema_list demo_quotes_meta). \<forall>s'. j \<noteq> 1 \<longrightarrow>
             compiled_entries demo_env (name ?R) ((schema_list demo_quotes_meta)[1 := s']) ! j
               = compiled_entries demo_env (name ?R) (schema_list demo_quotes_meta) ! j"
      "\<forall>rule' m'. join [cwd demo_env, entry rule'] \<noteq> join [cwd demo_env, entry ?R] \<longrightarrow>
             rule_dts (demo_env\<lparr> module_at := (module_at demo_env)(join [cwd demo_env, entry ?R] := m') \<rparr>) rule'
               = rule_dts demo_env rule'"
    by blast
  from f(2,3) n d have a: "dts_lines f ! 2 = ''export type Schema1 = unknown'' @ [CHR 0x0A]"
    "''Failed to compile schema Schema1 for rule quotes. Falling back to unknown.''
              \<in> set (dts_warnings f)"
    by (simp_all add: numeral_2_eq_2)
  from f(4) 2(2) 4 have b: "dts_lines f ! 3 = ''export type Schema2 = any'' @ [CHR 0x0A]"
    by (simp add: numeral_3_eq_3 numeral_2_eq_2)
  from f(5) 2(2) n
  have c: "compiled_entries demo_env ''quotes'' ((schema_list demo_quotes_meta)[1 := ''{}'']) ! 2
       = compiled_entries demo_env ''quotes'' (schema_list demo_quotes_meta) ! 2"
    by simp
  from f(6) 5 have e: "rule_dts (demo_env\<lparr> module_at := (module_at demo_env)
                    (join [cwd demo_env, entry ?R] := None) \<rparr>) ?R' = rule_dts demo_env ?R'"
    by blast
  from 1 s 3 4 f(1) a b c 5 e show ?thesis by blast
qed




section \<open>Write failures\<close>

text \<open>
  \<open>generateDTS\<close> does not wait for the callbacks it starts, so whether they fail has no
  bearing on what it returns to \<open>run\<close>.
\<close>

lemma generateDTS_never_rejects: "snd (generateDTS e pkg) = Inr ()"
  by (simp add: generateDTS_def)

lemma generateDTS_ignores_write_failures:
  "generateDTS (e\<lparr> write_fails := fails \<rparr>) pkg = generateDTS e pkg"
  by (simp add: generateDTS_def)


end
